theory Spec2Isabelle
  imports Main
begin

section \<open>Persistence model (main.py, lines 51-94)\<close>

text \<open>
  The three mapped classes of \<^verbatim>\<open>main.py\<close>. Each table is kept as the list of its rows in
  insertion order. Primary keys are integers; the two foreign keys of a comment and the
  foreign key of a post are declared without \<^verbatim>\<open>nullable=False\<close>, so they may hold NULL and
  are options here. The stored password is the string \<^verbatim>\<open>method$salt$digest\<close> that
  \<^verbatim>\<open>generate_password_hash\<close> returns; the method is the fixed \<^verbatim>\<open>pbkdf2:sha256\<close>, so the
  row keeps the pair of salt and digest.
\<close>

type_synonym pwhash = "string \<times> string"

record user =
  u_id :: int
  email :: string
  password :: pwhash
  name :: string

record blog_post =
  p_id :: int
  p_author_id :: "int option"
  title :: string
  subtitle :: string
  date :: string
  body :: string
  img_url :: string

record comment =
  c_id :: int
  c_author_id :: "int option"
  c_post_id :: "int option"
  c_text :: string

text \<open>
  The state a request runs against: the three tables, and the user identifier that the
  session cookie of the requesting client carries (\<open>None\<close> when the client is not logged in).
\<close>

record state =
  users :: "user list"
  blog_posts :: "blog_post list"
  comments :: "comment list"
  session_user :: "int option"

text \<open>
  What a view function hands back to the framework. \<open>Render\<close> and \<open>Redirect\<close> carry the
  template or endpoint name and the messages flashed during the request; \<open>Abort\<close> is
  \<^verbatim>\<open>abort(code)\<close>; \<open>Unhandled\<close> is an exception that no handler of \<^verbatim>\<open>main.py\<close> catches, which
  the framework turns into an internal server error.
\<close>

datatype exn = AttributeError | UnmappedInstanceError | IntegrityError | OverflowError

datatype response =
    Render string "string list"
  | Redirect string "string list"
  | Abort int
  | Unhandled exn

text \<open>
  Modelled from the spec: \<^verbatim>\<open>forms.py\<close> is not part of the sources. Following section 6 of the
  specification, the forms layer returns either a record of validated field values or a
  validation-failure signal: a form argument is \<open>Some fields\<close> exactly when
  \<^verbatim>\<open>form.validate_on_submit()\<close> is true, and \<open>None\<close> otherwise (a GET request, or a
  submission that did not validate).
\<close>

record post_form =
  f_title :: string
  f_subtitle :: string
  f_body :: string
  f_img_url :: string

record register_form =
  r_email :: string
  r_password :: string
  r_name :: string

record login_form =
  l_email :: string
  l_password :: string

section \<open>Current user (lines 97-99 and the login manager)\<close>

text \<open>
  \<^verbatim>\<open>current_user\<close> is the row that \<^verbatim>\<open>load_user\<close> finds for the identifier in the session, and
  the login manager's anonymous user when the session holds none or the row is gone. The
  anonymous user object has the attribute \<^verbatim>\<open>is_authenticated\<close> (false) and no attribute
  \<^verbatim>\<open>id\<close>: reading it raises \<^verbatim>\<open>AttributeError\<close>. The session keeps the identifier as the
  string \<^verbatim>\<open>login_user\<close> stored, and \<^verbatim>\<open>load_user\<close> passes that string on, so this lookup does
  not meet the integer range check that a path argument meets in \<^verbatim>\<open>query.get\<close>.
\<close>

datatype actor = AnonymousUser | LoggedIn user

definition load_user :: "int \<Rightarrow> state \<Rightarrow> user option" where
  "load_user user_id s = find (\<lambda>u. u_id u = user_id) (users s)"

definition current_user :: "state \<Rightarrow> actor" where
  "current_user s =
     (case session_user s of
        None \<Rightarrow> AnonymousUser
      | Some user_id \<Rightarrow>
          (case load_user user_id s of None \<Rightarrow> AnonymousUser | Some u \<Rightarrow> LoggedIn u))"

fun is_authenticated :: "actor \<Rightarrow> bool" where
  "is_authenticated AnonymousUser = False"
| "is_authenticated (LoggedIn u) = True"

fun actor_id :: "actor \<Rightarrow> exn + int" where
  "actor_id AnonymousUser = Inl AttributeError"
| "actor_id (LoggedIn u) = Inr (u_id u)"

definition login_user :: "user \<Rightarrow> state \<Rightarrow> state" where
  "login_user u s = s\<lparr>session_user := Some (u_id u)\<rparr>"

definition logout_user :: "state \<Rightarrow> state" where
  "logout_user s = s\<lparr>session_user := None\<rparr>"

section \<open>Password hashing (werkzeug.security)\<close>

text \<open>
  The digest function of the hashing method is a parameter \<open>H\<close> (salt, then password).
  \<^verbatim>\<open>generate_password_hash\<close> draws a salt, here an argument, and stores it beside the digest;
  \<^verbatim>\<open>check_password_hash\<close> recomputes the digest with the stored salt and compares.
\<close>

definition generate_password_hash ::
  "(string \<Rightarrow> string \<Rightarrow> string) \<Rightarrow> string \<Rightarrow> string \<Rightarrow> pwhash" where
  "generate_password_hash H salt pw = (salt, H salt pw)"

definition check_password_hash ::
  "(string \<Rightarrow> string \<Rightarrow> string) \<Rightarrow> pwhash \<Rightarrow> string \<Rightarrow> bool" where
  "check_password_hash H pwhash pw = (H (fst pwhash) pw = snd pwhash)"

section \<open>Session operations of the ORM\<close>

text \<open>
  What \<^verbatim>\<open>db.session\<close> does with the declared schema on the default store
  (\<^verbatim>\<open>sqlite:///blog.db\<close>), which does not enforce the declared string lengths. A new row
  takes the next integer key of its table: one more than the largest key in use, 1 in an
  empty table. \<^verbatim>\<open>commit\<close> raises \<^verbatim>\<open>IntegrityError\<close> and writes nothing when a column declared
  \<^verbatim>\<open>unique=True\<close> (the email of a user, the title of a post) would hold a value twice.
  An edit is written back as an update of the four assigned columns of the row with the
  post's key. Deleting a post whose \<^verbatim>\<open>comments\<close> relationship declares no cascade keeps its comments
  and sets their \<^verbatim>\<open>post_id\<close> to NULL. \<^verbatim>\<open>delete(None)\<close> raises \<^verbatim>\<open>UnmappedInstanceError\<close>.

  The store keeps integers in 64 bits, signed. \<^verbatim>\<open>query.get\<close> hands the identifier to the
  driver as a query parameter, and the driver raises \<^verbatim>\<open>OverflowError\<close> for a Python integer
  outside that range; the path converter of the routes accepts such identifiers. Within
  the range the result is the row with that key, or \<^verbatim>\<open>None\<close>.
\<close>

definition fresh_id :: "int list \<Rightarrow> int" where
  "fresh_id ids = fold max ids 0 + 1"

definition sqlite_int :: "int \<Rightarrow> bool" where
  "sqlite_int i = (- (2 ^ 63) \<le> i \<and> i < 2 ^ 63)"

definition query_get_post :: "int \<Rightarrow> state \<Rightarrow> exn + blog_post option" where
  "query_get_post i s =
     (if sqlite_int i then Inr (find (\<lambda>p. p_id p = i) (blog_posts s))
      else Inl OverflowError)"

definition db_add_user :: "string \<Rightarrow> pwhash \<Rightarrow> string \<Rightarrow> state \<Rightarrow> exn + (user \<times> state)" where
  "db_add_user e pw n s =
     (if e \<in> set (map email (users s)) then Inl IntegrityError
      else
        (let u = \<lparr>u_id = fresh_id (map u_id (users s)), email = e, password = pw, name = n\<rparr>
         in Inr (u, s\<lparr>users := users s @ [u]\<rparr>)))"

definition db_add_post ::
  "string \<Rightarrow> string \<Rightarrow> string \<Rightarrow> string \<Rightarrow> int option \<Rightarrow> string \<Rightarrow> state \<Rightarrow> exn + state" where
  "db_add_post t st d b a img s =
     (if t \<in> set (map title (blog_posts s)) then Inl IntegrityError
      else
        Inr (s\<lparr>blog_posts := blog_posts s @
          [\<lparr>p_id = fresh_id (map p_id (blog_posts s)), p_author_id = a, title = t,
            subtitle = st, date = d, body = b, img_url = img\<rparr>]\<rparr>))"

definition db_add_comment :: "int option \<Rightarrow> int option \<Rightarrow> string \<Rightarrow> state \<Rightarrow> state" where
  "db_add_comment parent author txt s =
     s\<lparr>comments := comments s @
       [\<lparr>c_id = fresh_id (map c_id (comments s)), c_author_id = author,
         c_post_id = parent, c_text = txt\<rparr>]\<rparr>"

definition db_update_post ::
  "int \<Rightarrow> string \<Rightarrow> string \<Rightarrow> string \<Rightarrow> string \<Rightarrow> state \<Rightarrow> exn + state" where
  "db_update_post i t st img b s =
     (if t \<in> set (map title (filter (\<lambda>q. p_id q \<noteq> i) (blog_posts s)))
      then Inl IntegrityError
      else
        Inr (s\<lparr>blog_posts :=
          map (\<lambda>q. if p_id q = i
                   then q\<lparr>title := t, subtitle := st, img_url := img, body := b\<rparr>
                   else q) (blog_posts s)\<rparr>))"

definition db_delete_post :: "blog_post option \<Rightarrow> state \<Rightarrow> exn + state" where
  "db_delete_post po s =
     (case po of
        None \<Rightarrow> Inl UnmappedInstanceError
      | Some p \<Rightarrow>
          Inr (s\<lparr>blog_posts := filter (\<lambda>q. p_id q \<noteq> p_id p) (blog_posts s),
                 comments := map (\<lambda>c. if c_post_id c = Some (p_id p)
                                       then c\<lparr>c_post_id := None\<rparr> else c) (comments s)\<rparr>))"

section \<open>The administrator gate (lines 17-30)\<close>

text \<open>
  The condition reads \<^verbatim>\<open>current_user.id\<close> first, then \<^verbatim>\<open>current_user.is_authenticated\<close>.
\<close>

definition admin_only :: "(state \<Rightarrow> response \<times> state) \<Rightarrow> state \<Rightarrow> response \<times> state" where
  "admin_only f s =
     (case actor_id (current_user s) of
        Inl e \<Rightarrow> (Unhandled e, s)
      | Inr i \<Rightarrow>
          if i \<noteq> 1 \<or> \<not> is_authenticated (current_user s) then (Abort 403, s)
          else f s)"

section \<open>View functions (lines 101-242)\<close>

definition get_all_posts :: "state \<Rightarrow> response \<times> state" where
  "get_all_posts s = (Render ''index.html'' [], s)"

definition show_post :: "int \<Rightarrow> string option \<Rightarrow> state \<Rightarrow> response \<times> state" where
  "show_post index form s =
     (case query_get_post index s of
        Inl e \<Rightarrow> (Unhandled e, s)
      | Inr requested_post \<Rightarrow>
          (case form of
             Some comment_data \<Rightarrow>
               (case current_user s of
                  LoggedIn u \<Rightarrow>
                    (Render ''post.html'' [],
                     db_add_comment (map_option p_id requested_post) (Some (u_id u))
                       comment_data s)
                | AnonymousUser \<Rightarrow>
                    (Redirect ''login'' [''You need to login to comment!!!''], s))
           | None \<Rightarrow> (Render ''post.html'' [], s)))"

text \<open>
  The body of \<^verbatim>\<open>new_post\<close>; \<open>today\<close> is the formatted current date. The author is
  \<^verbatim>\<open>current_user\<close>, which behind the gate is a user row.
\<close>

definition new_post_fn :: "post_form option \<Rightarrow> string \<Rightarrow> state \<Rightarrow> response \<times> state" where
  "new_post_fn form today s =
     (case form of
        Some f \<Rightarrow>
          (case actor_id (current_user s) of
             Inl e \<Rightarrow> (Unhandled e, s)
           | Inr a \<Rightarrow>
               (case db_add_post (f_title f) (f_subtitle f) today (f_body f) (Some a)
                       (f_img_url f) s of
                  Inl e \<Rightarrow> (Unhandled e, s)
                | Inr s' \<Rightarrow> (Redirect ''get_all_posts'' [], s')))
      | None \<Rightarrow> (Render ''make-post1.html'' [], s))"

definition new_post :: "post_form option \<Rightarrow> string \<Rightarrow> state \<Rightarrow> response \<times> state" where
  "new_post form today = admin_only (new_post_fn form today)"

definition edit_post_fn :: "int \<Rightarrow> post_form option \<Rightarrow> state \<Rightarrow> response \<times> state" where
  "edit_post_fn post_id form s =
     (case query_get_post post_id s of
        Inl e \<Rightarrow> (Unhandled e, s)
      | Inr None \<Rightarrow> (Unhandled AttributeError, s)
      | Inr (Some post_to_edit) \<Rightarrow>
          (case form of
             Some f \<Rightarrow>
               (case db_update_post (p_id post_to_edit) (f_title f) (f_subtitle f)
                       (f_img_url f) (f_body f) s of
                  Inl e \<Rightarrow> (Unhandled e, s)
                | Inr s' \<Rightarrow> (Redirect ''show_post'' [], s'))
           | None \<Rightarrow> (Render ''make-post1.html'' [], s)))"

definition edit_post :: "int \<Rightarrow> post_form option \<Rightarrow> state \<Rightarrow> response \<times> state" where
  "edit_post post_id form = admin_only (edit_post_fn post_id form)"

definition delete_post_fn :: "int \<Rightarrow> state \<Rightarrow> response \<times> state" where
  "delete_post_fn post_id s =
     (case query_get_post post_id s of
        Inl e \<Rightarrow> (Unhandled e, s)
      | Inr post_to_delete \<Rightarrow>
          (case db_delete_post post_to_delete s of
             Inl e \<Rightarrow> (Unhandled e, s)
           | Inr s' \<Rightarrow> (Redirect ''get_all_posts'' [], s')))"

definition delete_post :: "int \<Rightarrow> state \<Rightarrow> response \<times> state" where
  "delete_post post_id = admin_only (delete_post_fn post_id)"

definition about :: "state \<Rightarrow> response \<times> state" where
  "about s = (Render ''about.html'' [], s)"

definition contact :: "state \<Rightarrow> response \<times> state" where
  "contact s = (Render ''contact.html'' [], s)"

definition register ::
  "(string \<Rightarrow> string \<Rightarrow> string) \<Rightarrow> register_form option \<Rightarrow> string \<Rightarrow> state \<Rightarrow> response \<times> state"
  where
  "register H form salt s =
     (case form of
        Some f \<Rightarrow>
          (let new_password = generate_password_hash H salt (r_password f);
               all_user_emails = map email (users s)
           in if r_email f \<notin> set all_user_emails then
                (case db_add_user (r_email f) new_password (r_name f) s of
                   Inl e \<Rightarrow> (Unhandled e, s)
                 | Inr (new_user, s') \<Rightarrow>
                     (Redirect ''get_all_posts'' [], login_user new_user s'))
              else
                (Redirect ''login'' [''This email already exists, login instead!!!.''], s))
      | None \<Rightarrow> (Render ''register.html'' [], s))"

definition login ::
  "(string \<Rightarrow> string \<Rightarrow> string) \<Rightarrow> login_form option \<Rightarrow> state \<Rightarrow> response \<times> state" where
  "login H form s =
     (case form of
        Some f \<Rightarrow>
          (case find (\<lambda>u. email u = l_email f) (users s) of
             Some u \<Rightarrow>
               if check_password_hash H (password u) (l_password f)
               then (Redirect ''get_all_posts'' [], login_user u s)
               else (Render ''login.html'' [''Password is incorrect''], s)
           | None \<Rightarrow>
               (Render ''login.html'' [''Email does not exist, please try again.''], s))
      | None \<Rightarrow> (Render ''login.html'' [], s))"

definition logout :: "state \<Rightarrow> response \<times> state" where
  "logout s = (Redirect ''get_all_posts'' [], logout_user s)"

section \<open>Requests and reachable states\<close>

text \<open>
  One constructor for each route of \<^verbatim>\<open>main.py\<close>, with what the request supplies: the path
  argument, the submitted form, and the two values the handlers draw from their environment
  (the formatted current date in \<^verbatim>\<open>new_post\<close>, the salt in \<^verbatim>\<open>register\<close>).
\<close>

datatype request =
    GetAllPosts
  | ShowPost int "string option"
  | NewPost "post_form option" string
  | EditPost int "post_form option"
  | DeletePost int
  | About
  | Contact
  | Register "register_form option" string
  | Login "login_form option"
  | Logout

fun route :: "(string \<Rightarrow> string \<Rightarrow> string) \<Rightarrow> request \<Rightarrow> state \<Rightarrow> response \<times> state" where
  "route H GetAllPosts s = get_all_posts s"
| "route H (ShowPost index form) s = show_post index form s"
| "route H (NewPost form today) s = new_post form today s"
| "route H (EditPost post_id form) s = edit_post post_id form s"
| "route H (DeletePost post_id) s = delete_post post_id s"
| "route H About s = about s"
| "route H Contact s = contact s"
| "route H (Register form salt) s = register H form salt s"
| "route H (Login form) s = login H form s"
| "route H Logout s = logout s"

text \<open>
  The tables are created empty. Every request is served for some client, whose session
  names any user identifier or none; the state reached is what the handler leaves.
\<close>

definition empty_state :: state where
  "empty_state = \<lparr>users = [], blog_posts = [], comments = [], session_user = None\<rparr>"

inductive reachable :: "(string \<Rightarrow> string \<Rightarrow> string) \<Rightarrow> state \<Rightarrow> bool"
  for H :: "string \<Rightarrow> string \<Rightarrow> string" where
  start: "reachable H empty_state"
| request: "reachable H s \<Longrightarrow> reachable H (snd (route H req (s\<lparr>session_user := c\<rparr>)))"

text \<open>
  Two readings of "a comment references its author and its parent post". The first asks
  for an existing user and an existing post; the second allows \<^verbatim>\<open>post_id\<close> to be NULL.
\<close>

definition comment_refs_valid :: "state \<Rightarrow> bool" where
  "comment_refs_valid s =
     (\<forall>c \<in> set (comments s).
        (\<exists>u \<in> set (users s). c_author_id c = Some (u_id u)) \<and>
        (\<exists>p \<in> set (blog_posts s). c_post_id c = Some (p_id p)))"

definition comment_refs_ok :: "state \<Rightarrow> bool" where
  "comment_refs_ok s =
     (\<forall>c \<in> set (comments s).
        (\<exists>u \<in> set (users s). c_author_id c = Some (u_id u)) \<and>
        (c_post_id c = None \<or> (\<exists>p \<in> set (blog_posts s). c_post_id c = Some (p_id p))))"

text \<open>
  A sequence of registrations, each with the salt drawn for it, run one after the other;
  the responses are collected in order.
\<close>

fun register_all ::
  "(string \<Rightarrow> string \<Rightarrow> string) \<Rightarrow> (register_form \<times> string) list \<Rightarrow> state
     \<Rightarrow> response list \<times> state" where
  "register_all H [] s = ([], s)"
| "register_all H ((f, salt) # rest) s =
     (let (r, s1) = register H (Some f) salt s;
          (rs, s2) = register_all H rest s1
      in (r # rs, s2))"

section \<open>Sample data\<close>

text \<open>
  Concrete rows and states on which the theorems below are instantiated. \<open>sample_digest\<close>
  stands in for the digest function; \<open>alice_state\<close> is the state after Alice registered
  on the empty tables with salt \<^verbatim>\<open>salt\<close>.
\<close>

definition sample_digest :: "string \<Rightarrow> string \<Rightarrow> string" where
  "sample_digest salt pw = salt @ pw"

definition alice_form :: register_form where
  "alice_form = \<lparr>r_email = ''alice@example.com'', r_password = ''pw123'', r_name = ''Alice''\<rparr>"

definition alice_row :: user where
  "alice_row = \<lparr>u_id = 1, email = ''alice@example.com'',
     password = (''salt'', ''saltpw123''), name = ''Alice''\<rparr>"

definition alice_state :: state where
  "alice_state = \<lparr>users = [alice_row], blog_posts = [], comments = [], session_user = Some 1\<rparr>"

definition orphan_state :: state where
  "orphan_state = alice_state\<lparr>comments :=
     [\<lparr>c_id = 1, c_author_id = Some 1, c_post_id = None, c_text = ''nice post''\<rparr>]\<rparr>"

definition admin_row :: user where
  "admin_row = \<lparr>u_id = 1, email = ''admin@example.com'', password = (''salt'', ''digest''), name = ''Admin''\<rparr>"

definition sample_post :: blog_post where
  "sample_post = \<lparr>p_id = 1, p_author_id = Some 1, title = ''Hello'', subtitle = ''World'',
     date = ''March 05,2024'', body = ''text'', img_url = ''http://img''\<rparr>"

definition sample_comment :: comment where
  "sample_comment = \<lparr>c_id = 1, c_author_id = Some 1, c_post_id = Some 1, c_text = ''nice post''\<rparr>"

definition admin_state :: state where
  "admin_state = \<lparr>users = [admin_row], blog_posts = [sample_post], comments = [sample_comment],
     session_user = Some 1\<rparr>"

definition admin_state0 :: state where
  "admin_state0 = \<lparr>users = [admin_row], blog_posts = [], comments = [], session_user = Some 1\<rparr>"


definition sample_form :: post_form where
  "sample_form = \<lparr>f_title = ''Hello'', f_subtitle = ''again'', f_body = ''more'', f_img_url = ''http://img2''\<rparr>"

definition too_large_id :: int where
  "too_large_id = 2 ^ 63"

definition bob_form :: register_form where
  "bob_form = \<lparr>r_email = ''bob@example.com'', r_password = ''hunter2'', r_name = ''Bob''\<rparr>"

section \<open>The administrator gate and the gated views\<close>

lemma current_user_admin_state: "current_user admin_state = LoggedIn admin_row"
  by (simp add: current_user_def load_user_def admin_state_def admin_row_def)

lemma admin_only_anonymous:
  "current_user s = AnonymousUser \<Longrightarrow> admin_only f s = (Unhandled AttributeError, s)"
  by (simp add: admin_only_def)

lemma admin_only_other_user:
  "current_user s = LoggedIn u \<Longrightarrow> u_id u \<noteq> 1 \<Longrightarrow> admin_only f s = (Abort 403, s)"
  by (simp add: admin_only_def)

lemma admin_only_admin:
  "current_user s = LoggedIn u \<Longrightarrow> u_id u = 1 \<Longrightarrow> admin_only f s = f s"
  by (simp add: admin_only_def)

lemma gated_views_other_user:
  assumes "current_user s = LoggedIn u" and "u_id u \<noteq> 1"
  shows "new_post form today s = (Abort 403, s)"
    and "edit_post post_id form s = (Abort 403, s)"
    and "delete_post post_id s = (Abort 403, s)"
  using assms by (simp_all add: new_post_def edit_post_def delete_post_def admin_only_other_user)

lemma gated_views_administrator:
  assumes "current_user s = LoggedIn u" and "u_id u = 1"
  shows "new_post form today s = new_post_fn form today s"
    and "edit_post post_id form s = edit_post_fn post_id form s"
    and "delete_post post_id s = delete_post_fn post_id s"
  using assms by (simp_all add: new_post_def edit_post_def delete_post_def admin_only_admin)

text \<open>
  Claim C1. The gate is to refuse every actor other than the administrator with 403 and
  leave the state alone. For a logged-in user whose identifier is not 1 it does
  (\<open>gated_views_other_user\<close>), and identifier 1 passes (\<open>gated_views_administrator\<close>). For an
  anonymous actor the condition fails while reading \<^verbatim>\<open>current_user.id\<close>, before the test of
  \<^verbatim>\<open>is_authenticated\<close> is reached: each of the three gated views ends in an unhandled
  \<^verbatim>\<open>AttributeError\<close> instead of 403. The state is unchanged.
\<close>

theorem gate_raises_for_anonymous:
  "current_user s = AnonymousUser \<Longrightarrow>
     new_post form today s = (Unhandled AttributeError, s) \<and>
     edit_post post_id form s = (Unhandled AttributeError, s) \<and>
     delete_post post_id s = (Unhandled AttributeError, s)"
  by (simp add: new_post_def edit_post_def delete_post_def admin_only_anonymous)

text \<open>
  The three gated views on the empty tables, requested without a session.
\<close>

theorem gate_raises_for_anonymous_witness:
  "current_user empty_state = AnonymousUser \<and>
   new_post (Some sample_form) ''March 05,2024'' empty_state = (Unhandled AttributeError, empty_state) \<and>
   edit_post 1 (Some sample_form) empty_state = (Unhandled AttributeError, empty_state) \<and>
   delete_post 1 empty_state = (Unhandled AttributeError, empty_state)"
proof -
  have a: "current_user empty_state = AnonymousUser"
    by (simp add: current_user_def empty_state_def)
  show ?thesis
    using a gate_raises_for_anonymous [OF a, of "Some sample_form" "''March 05,2024''" 1] by simp
qed

lemma find_p_id: "find (\<lambda>p. p_id p = i) ps = Some p \<Longrightarrow> p_id p = i \<and> p \<in> set ps"
  by (induction ps) (auto split: if_splits)

lemma query_get_post_Some:
  "query_get_post i s = Inr (Some p) \<Longrightarrow> p_id p = i \<and> p \<in> set (blog_posts s) \<and> sqlite_int i"
  by (auto simp add: query_get_post_def split: if_splits dest: find_p_id)

lemma query_get_post_None:
  "query_get_post i s = Inr None \<longleftrightarrow> sqlite_int i \<and> i \<notin> p_id ` set (blog_posts s)"
  unfolding query_get_post_def by (auto simp add: find_None_iff)

lemma query_get_post_overflow:
  "query_get_post i s = Inl e \<longleftrightarrow> \<not> sqlite_int i \<and> e = OverflowError"
  unfolding query_get_post_def by auto

lemma sqlite_int_small: "sqlite_int 1" "sqlite_int 7"
  by (simp_all add: sqlite_int_def)

lemma too_large_id_overflows: "\<not> sqlite_int too_large_id"
  by (simp add: sqlite_int_def too_large_id_def)

lemma too_large_id_missing: "too_large_id \<notin> p_id ` set (blog_posts admin_state)"
  by (simp add: admin_state_def sample_post_def too_large_id_def)

lemma delete_post_admin:
  assumes "current_user s = LoggedIn u" and "u_id u = 1" and "query_get_post post_id s = Inr (Some p)"
  shows "delete_post post_id s =
           (Redirect ''get_all_posts'' [],
            s\<lparr>blog_posts := filter (\<lambda>q. p_id q \<noteq> post_id) (blog_posts s),
              comments := map (\<lambda>c. if c_post_id c = Some post_id then c\<lparr>c_post_id := None\<rparr> else c)
                            (comments s)\<rparr>)"
proof -
  have pid: "p_id p = post_id" using assms(3) by (simp add: query_get_post_Some)
  show ?thesis
    using assms pid
    by (simp add: delete_post_def admin_only_admin delete_post_fn_def db_delete_post_def)
qed

lemma query_admin_state: "query_get_post 1 admin_state = Inr (Some sample_post)"
  by (simp add: query_get_post_def sqlite_int_small admin_state_def sample_post_def)

lemma u_id_admin_row: "u_id admin_row = 1"
  by (simp add: admin_row_def)

text \<open>
  Claim C2 as stated fails: the administrator deletes post 1, which has one comment. The
  post is gone and the comment row is still stored, with its \<^verbatim>\<open>post_id\<close> cleared.
\<close>

theorem delete_keeps_comments_counterexample:
  "delete_post 1 admin_state =
     (Redirect ''get_all_posts'' [],
      admin_state\<lparr>blog_posts := [], comments := [sample_comment\<lparr>c_post_id := None\<rparr>]\<rparr>)"
  unfolding delete_post_admin [OF current_user_admin_state u_id_admin_row query_admin_state]
  by (simp add: admin_state_def sample_post_def sample_comment_def)

lemma nullify_keeps_ids:
  "map c_id (map (\<lambda>c. if c_post_id c = Some i then c\<lparr>c_post_id := None\<rparr> else c) cs) = map c_id cs"
  by (induction cs) auto

lemma nullify_no_reference:
  "Some i \<notin> c_post_id ` set (map (\<lambda>c. if c_post_id c = Some i then c\<lparr>c_post_id := None\<rparr> else c) cs)"
  by (induction cs) auto

text \<open>
  Claim C2, amended. For every stored post, \<^verbatim>\<open>delete_post\<close> called by the administrator
  removes the post and keeps every comment row: the comments whose parent was the post have
  their \<^verbatim>\<open>post_id\<close> set to NULL and all other comments are untouched. Afterwards no post and
  no comment carries the deleted identifier.
\<close>

theorem delete_post_nullifies_comments:
  assumes "current_user s = LoggedIn u" and "u_id u = 1" and "query_get_post post_id s = Inr (Some p)"
  shows "delete_post post_id s =
           (Redirect ''get_all_posts'' [],
            s\<lparr>blog_posts := filter (\<lambda>q. p_id q \<noteq> post_id) (blog_posts s),
              comments := map (\<lambda>c. if c_post_id c = Some post_id then c\<lparr>c_post_id := None\<rparr> else c)
                            (comments s)\<rparr>)
         \<and> post_id \<notin> p_id ` set (blog_posts (snd (delete_post post_id s)))
         \<and> Some post_id \<notin> c_post_id ` set (comments (snd (delete_post post_id s)))
         \<and> map c_id (comments (snd (delete_post post_id s))) = map c_id (comments s)"
proof -
  note eq = delete_post_admin [OF assms]
  have a: "post_id \<notin> p_id ` set (blog_posts (snd (delete_post post_id s)))"
    unfolding eq by auto
  have b: "Some post_id \<notin> c_post_id ` set (comments (snd (delete_post post_id s)))"
    unfolding eq using nullify_no_reference [of post_id "comments s"] by simp
  have c: "map c_id (comments (snd (delete_post post_id s))) = map c_id (comments s)"
    unfolding eq using nullify_keeps_ids [of post_id "comments s"] by simp
  from eq a b c show ?thesis by blast
qed

theorem delete_post_nullifies_comments_witness:
  "current_user admin_state = LoggedIn admin_row \<and> u_id admin_row = 1 \<and>
   query_get_post 1 admin_state = Inr (Some sample_post) \<and>
   1 \<notin> p_id ` set (blog_posts (snd (delete_post 1 admin_state))) \<and>
   Some 1 \<notin> c_post_id ` set (comments (snd (delete_post 1 admin_state))) \<and>
   map c_id (comments (snd (delete_post 1 admin_state))) = [1]"
proof -
  note t = delete_post_nullifies_comments
    [OF current_user_admin_state u_id_admin_row query_admin_state]
  have ids: "map c_id (comments admin_state) = [1]"
    by (simp add: admin_state_def sample_comment_def)
  from t have a: "1 \<notin> p_id ` set (blog_posts (snd (delete_post 1 admin_state)))"
    by (rule conjunct1 [OF conjunct2])
  from t have b: "Some 1 \<notin> c_post_id ` set (comments (snd (delete_post 1 admin_state)))"
    by (rule conjunct1 [OF conjunct2 [OF conjunct2]])
  from t have c: "map c_id (comments (snd (delete_post 1 admin_state))) = map c_id (comments admin_state)"
    by (rule conjunct2 [OF conjunct2 [OF conjunct2]])
  from a b c ids current_user_admin_state u_id_admin_row query_admin_state
  show ?thesis by simp
qed

lemma current_user_admin_state0: "current_user admin_state0 = LoggedIn admin_row"
  by (simp add: current_user_def load_user_def admin_state0_def admin_row_def)

lemma current_user_cong:
  "users s' = users s \<Longrightarrow> session_user s' = session_user s \<Longrightarrow> current_user s' = current_user s"
  by (simp add: current_user_def load_user_def cong: option.case_cong)

lemma new_post_admin:
  assumes "current_user s = LoggedIn u" and "u_id u = 1"
  shows "new_post (Some f) today s =
           (case db_add_post (f_title f) (f_subtitle f) today (f_body f) (Some 1) (f_img_url f) s of
              Inl e \<Rightarrow> (Unhandled e, s)
            | Inr s' \<Rightarrow> (Redirect ''get_all_posts'' [], s'))"
  using assms by (simp add: new_post_def admin_only_admin new_post_fn_def)

lemma new_post_fresh_title:
  assumes "current_user s = LoggedIn u" and "u_id u = 1"
    and "f_title f \<notin> set (map title (blog_posts s))"
  shows "new_post (Some f) today s =
           (Redirect ''get_all_posts'' [],
            s\<lparr>blog_posts := blog_posts s @
              [\<lparr>p_id = fresh_id (map p_id (blog_posts s)), p_author_id = Some 1,
                title = f_title f, subtitle = f_subtitle f, date = today, body = f_body f,
                img_url = f_img_url f\<rparr>]\<rparr>)"
  using assms(3) unfolding new_post_admin [OF assms(1,2)] by (simp add: db_add_post_def)

lemma new_post_taken_title:
  assumes "current_user s = LoggedIn u" and "u_id u = 1"
    and "f_title f \<in> set (map title (blog_posts s))"
  shows "new_post (Some f) today s = (Unhandled IntegrityError, s)"
  using assms(3) unfolding new_post_admin [OF assms(1,2)] by (simp add: db_add_post_def)

text \<open>
  Claim C3, amended. When the administrator submits a title that no stored post has, the
  first \<^verbatim>\<open>new_post\<close> succeeds (redirect to the index). A second submission with the same
  title is rejected by the unique constraint on \<^verbatim>\<open>title\<close>: it ends in an unhandled
  \<^verbatim>\<open>IntegrityError\<close>, not in a handled duplicate-title outcome, and leaves the state as the
  first call left it, with exactly one post of that title.
\<close>

theorem duplicate_title_raises:
  assumes "current_user s = LoggedIn u" and "u_id u = 1"
    and "f_title f \<notin> set (map title (blog_posts s))"
    and "f_title g = f_title f"
  shows "fst (new_post (Some f) d1 s) = Redirect ''get_all_posts'' []
       \<and> new_post (Some g) d2 (snd (new_post (Some f) d1 s)) =
           (Unhandled IntegrityError, snd (new_post (Some f) d1 s))
       \<and> length (filter (\<lambda>p. title p = f_title f) (blog_posts (snd (new_post (Some f) d1 s)))) = 1"
proof -
  let ?s1 = "snd (new_post (Some f) d1 s)"
  note first = new_post_fresh_title [OF assms(1,2,3), of d1]
  have "current_user ?s1 = current_user s"
    by (rule current_user_cong) (simp_all add: first)
  then have cu: "current_user ?s1 = LoggedIn u"
    using assms(1) by simp
  have taken: "f_title g \<in> set (map title (blog_posts ?s1))"
    unfolding first using assms(4) by simp
  have none: "filter (\<lambda>p. title p = f_title f) (blog_posts s) = []"
    using assms(3) by (force simp add: filter_empty_conv)
  have a: "fst (new_post (Some f) d1 s) = Redirect ''get_all_posts'' []"
    unfolding first by simp
  have b: "new_post (Some g) d2 ?s1 = (Unhandled IntegrityError, ?s1)"
    by (rule new_post_taken_title [OF cu assms(2) taken])
  have c: "length (filter (\<lambda>p. title p = f_title f) (blog_posts ?s1)) = 1"
    unfolding first using none by simp
  from a b c show ?thesis by blast
qed

lemma titles_admin_state0: "f_title sample_form \<notin> set (map title (blog_posts admin_state0))"
  by (simp add: admin_state0_def)

theorem duplicate_title_raises_witness:
  "current_user admin_state0 = LoggedIn admin_row \<and> u_id admin_row = 1 \<and>
   f_title sample_form \<notin> set (map title (blog_posts admin_state0)) \<and>
   fst (new_post (Some sample_form) ''March 05,2024'' admin_state0) = Redirect ''get_all_posts'' [] \<and>
   length (filter (\<lambda>p. title p = f_title sample_form)
     (blog_posts (snd (new_post (Some sample_form) ''March 05,2024'' admin_state0)))) = 1"
  using duplicate_title_raises [OF current_user_admin_state0 u_id_admin_row titles_admin_state0 refl,
      of "''March 05,2024''" "''March 06,2024''"]
    current_user_admin_state0 u_id_admin_row titles_admin_state0
  by blast

text \<open>
  Claim C3 as stated fails: the second creation with the same title does not return an
  error outcome, it raises.
\<close>

theorem second_create_counterexample:
  "fst (new_post (Some sample_form) ''March 06,2024''
         (snd (new_post (Some sample_form) ''March 05,2024'' admin_state0)))
   = Unhandled IntegrityError"
proof -
  note first = new_post_fresh_title
    [OF current_user_admin_state0 u_id_admin_row titles_admin_state0, of "''March 05,2024''"]
  have "current_user (snd (new_post (Some sample_form) ''March 05,2024'' admin_state0))
              = current_user admin_state0"
    by (rule current_user_cong) (simp_all add: first)
  then have cu: "current_user (snd (new_post (Some sample_form) ''March 05,2024'' admin_state0))
              = LoggedIn admin_row"
    using current_user_admin_state0 by simp
  have taken: "f_title sample_form \<in> set (map title
      (blog_posts (snd (new_post (Some sample_form) ''March 05,2024'' admin_state0))))"
    unfolding first by simp
  show ?thesis
    unfolding new_post_taken_title [OF cu u_id_admin_row taken] by simp
qed

lemma edit_post_missing:
  assumes "current_user s = LoggedIn u" and "u_id u = 1" and "query_get_post post_id s = Inr None"
  shows "edit_post post_id form s = (Unhandled AttributeError, s)"
  using assms by (simp add: edit_post_def admin_only_admin edit_post_fn_def)

lemma delete_post_missing:
  assumes "current_user s = LoggedIn u" and "u_id u = 1" and "query_get_post post_id s = Inr None"
  shows "delete_post post_id s = (Unhandled UnmappedInstanceError, s)"
  using assms by (simp add: delete_post_def admin_only_admin delete_post_fn_def db_delete_post_def)

lemma edit_post_overflow:
  assumes "current_user s = LoggedIn u" and "u_id u = 1" and "\<not> sqlite_int post_id"
  shows "edit_post post_id form s = (Unhandled OverflowError, s)"
  using assms
  by (simp add: edit_post_def admin_only_admin edit_post_fn_def query_get_post_def)

lemma delete_post_overflow:
  assumes "current_user s = LoggedIn u" and "u_id u = 1" and "\<not> sqlite_int post_id"
  shows "delete_post post_id s = (Unhandled OverflowError, s)"
  using assms
  by (simp add: delete_post_def admin_only_admin delete_post_fn_def query_get_post_def)

text \<open>
  Claim C4, amended. For an identifier with no post, \<^verbatim>\<open>edit_post\<close> and \<^verbatim>\<open>delete_post\<close> called
  by the administrator leave the state unchanged and end in an unhandled exception, not in
  a handled not-found outcome. For an identifier within the store's 64-bit range the
  lookup returns \<^verbatim>\<open>None\<close>, and \<^verbatim>\<open>edit_post\<close> raises \<^verbatim>\<open>AttributeError\<close> on the missing row
  while \<^verbatim>\<open>delete_post\<close> raises \<^verbatim>\<open>UnmappedInstanceError\<close> from the session; for an identifier
  outside that range the lookup itself raises \<^verbatim>\<open>OverflowError\<close> in both views.
\<close>

theorem missing_post_raises:
  assumes "current_user s = LoggedIn u" and "u_id u = 1"
    and "post_id \<notin> p_id ` set (blog_posts s)"
  shows "edit_post post_id form s =
           (Unhandled (if sqlite_int post_id then AttributeError else OverflowError), s)
       \<and> delete_post post_id s =
           (Unhandled (if sqlite_int post_id then UnmappedInstanceError else OverflowError), s)"
proof (cases "sqlite_int post_id")
  case True
  with assms(3) have q: "query_get_post post_id s = Inr None"
    by (simp add: query_get_post_None)
  from True edit_post_missing [OF assms(1,2) q] delete_post_missing [OF assms(1,2) q]
  show ?thesis by simp
next
  case False
  from False edit_post_overflow [OF assms(1,2) False] delete_post_overflow [OF assms(1,2) False]
  show ?thesis by simp
qed

lemma query_missing_admin_state: "query_get_post 7 admin_state = Inr None"
  by (simp add: query_get_post_def sqlite_int_small admin_state_def sample_post_def)

lemma seven_missing: "7 \<notin> p_id ` set (blog_posts admin_state)"
  by (simp add: admin_state_def sample_post_def)

theorem missing_post_raises_witness:
  "edit_post 7 (Some sample_form) admin_state = (Unhandled AttributeError, admin_state) \<and>
   delete_post 7 admin_state = (Unhandled UnmappedInstanceError, admin_state) \<and>
   edit_post too_large_id (Some sample_form) admin_state = (Unhandled OverflowError, admin_state) \<and>
   delete_post too_large_id admin_state = (Unhandled OverflowError, admin_state)"
  using missing_post_raises [OF current_user_admin_state u_id_admin_row seven_missing,
      of "Some sample_form"]
    missing_post_raises [OF current_user_admin_state u_id_admin_row too_large_id_missing,
      of "Some sample_form"]
    sqlite_int_small too_large_id_overflows
  by simp

text \<open>
  Claim C4 as stated fails: both views raise on the missing post 7.
\<close>

theorem missing_post_counterexample:
  "fst (edit_post 7 (Some sample_form) admin_state) = Unhandled AttributeError \<and>
   fst (delete_post 7 admin_state) = Unhandled UnmappedInstanceError"
  unfolding edit_post_missing [OF current_user_admin_state u_id_admin_row query_missing_admin_state]
    delete_post_missing [OF current_user_admin_state u_id_admin_row query_missing_admin_state]
  by simp

section \<open>Comments and the rows they reference\<close>

lemma find_u_id: "find (\<lambda>u. u_id u = i) us = Some u \<Longrightarrow> u_id u = i \<and> u \<in> set us"
  by (induction us) (auto split: if_splits)

lemma current_user_LoggedIn:
  "current_user s = LoggedIn u \<Longrightarrow> u \<in> set (users s) \<and> session_user s = Some (u_id u)"
  by (auto simp add: current_user_def load_user_def split: option.splits dest: find_u_id)

lemma register_fresh_email:
  assumes "r_email f \<notin> set (map email (users s))"
  shows "register H (Some f) salt s =
           (Redirect ''get_all_posts'' [],
            s\<lparr>users := users s @
                [\<lparr>u_id = fresh_id (map u_id (users s)), email = r_email f,
                  password = generate_password_hash H salt (r_password f), name = r_name f\<rparr>],
              session_user := Some (fresh_id (map u_id (users s)))\<rparr>)"
  using assms by (simp add: register_def db_add_user_def login_user_def Let_def)

lemma register_taken_email:
  assumes "r_email f \<in> set (map email (users s))"
  shows "register H (Some f) salt s =
           (Redirect ''login'' [''This email already exists, login instead!!!.''], s)"
  using assms by (simp add: register_def Let_def)

lemma show_post_overflow:
  assumes "\<not> sqlite_int index"
  shows "show_post index form s = (Unhandled OverflowError, s)"
  using assms by (simp add: show_post_def query_get_post_def)

lemma show_post_logged_in:
  assumes "current_user s = LoggedIn u" and "query_get_post index s = Inr requested_post"
  shows "show_post index (Some data) s =
           (Render ''post.html'' [],
            s\<lparr>comments := comments s @
              [\<lparr>c_id = fresh_id (map c_id (comments s)), c_author_id = Some (u_id u),
                c_post_id = map_option p_id requested_post, c_text = data\<rparr>]\<rparr>)"
  using assms by (simp add: show_post_def db_add_comment_def)


lemma register_alice:
  "snd (route sample_digest (Register (Some alice_form) ''salt'') (empty_state\<lparr>session_user := None\<rparr>))
     = alice_state"
proof -
  have "r_email alice_form \<notin> set (map email (users (empty_state\<lparr>session_user := None\<rparr>)))"
    by (simp add: empty_state_def)
  from register_fresh_email [OF this, of sample_digest "''salt''"]
  show ?thesis
    by (simp add: empty_state_def alice_state_def alice_row_def alice_form_def fresh_id_def
        generate_password_hash_def sample_digest_def)
qed

lemma current_user_alice_state: "current_user alice_state = LoggedIn alice_row"
  by (simp add: current_user_def load_user_def alice_state_def alice_row_def)

lemma comment_alice:
  "snd (route sample_digest (ShowPost 7 (Some ''nice post'')) (alice_state\<lparr>session_user := Some 1\<rparr>))
     = orphan_state"
proof -
  have same: "alice_state\<lparr>session_user := Some 1\<rparr> = alice_state"
    by (simp add: alice_state_def)
  have q: "query_get_post 7 alice_state = Inr None"
    by (simp add: query_get_post_def sqlite_int_small alice_state_def)
  show ?thesis
    unfolding same route.simps show_post_logged_in [OF current_user_alice_state q]
    by (simp add: orphan_state_def alice_state_def alice_row_def fresh_id_def)
qed

lemma reachable_alice_state: "reachable sample_digest alice_state"
  using reachable.request [OF reachable.start, of sample_digest "Register (Some alice_form) ''salt''" None]
  by (simp only: register_alice)

lemma reachable_orphan_state: "reachable sample_digest orphan_state"
  using reachable.request [OF reachable_alice_state, of "ShowPost 7 (Some ''nice post'')" "Some 1"]
  by (simp only: comment_alice)

text \<open>
  Claim C5 as stated fails: after Alice registers on the empty tables and submits a comment
  to \<^verbatim>\<open>/post/7\<close>, where no post exists, a comment without a parent post is stored.
\<close>

theorem parentless_comment_counterexample:
  "reachable sample_digest orphan_state \<and> \<not> comment_refs_valid orphan_state"
proof -
  have "\<not> comment_refs_valid orphan_state"
    by (simp add: comment_refs_valid_def orphan_state_def alice_state_def)
  with reachable_orphan_state show ?thesis by simp
qed

lemma comment_refs_ok_session [simp]:
  "comment_refs_ok (s\<lparr>session_user := c\<rparr>) = comment_refs_ok s"
  by (simp add: comment_refs_ok_def)

lemma comment_refs_ok_empty: "comment_refs_ok empty_state"
  by (simp add: comment_refs_ok_def empty_state_def)

lemma comment_refs_ok_add_comment:
  assumes "comment_refs_ok s" and "u \<in> set (users s)"
    and "parent = None \<or> (\<exists>p \<in> set (blog_posts s). parent = Some (p_id p))"
  shows "comment_refs_ok (db_add_comment parent (Some (u_id u)) txt s)"
  using assms by (auto simp add: comment_refs_ok_def db_add_comment_def)

lemma comment_refs_ok_mono:
  assumes "comment_refs_ok s" and "comments s' = comments s"
    and "set (users s) \<subseteq> set (users s')" and "set (blog_posts s) \<subseteq> set (blog_posts s')"
  shows "comment_refs_ok s'"
  using assms unfolding comment_refs_ok_def by (metis subsetD)

lemma comment_refs_ok_add_post:
  assumes "comment_refs_ok s" and "db_add_post t st d b a img s = Inr s'"
  shows "comment_refs_ok s'"
proof (rule comment_refs_ok_mono [OF assms(1)])
  from assms(2) have s': "s' = s\<lparr>blog_posts := blog_posts s @
          [\<lparr>p_id = fresh_id (map p_id (blog_posts s)), p_author_id = a, title = t,
            subtitle = st, date = d, body = b, img_url = img\<rparr>]\<rparr>"
    by (auto simp add: db_add_post_def split: if_splits)
  show "comments s' = comments s" "set (users s) \<subseteq> set (users s')"
    "set (blog_posts s) \<subseteq> set (blog_posts s')"
    unfolding s' by auto
qed

lemma comment_refs_ok_add_user:
  assumes "comment_refs_ok s" and "db_add_user e pw n s = Inr (u, s')"
  shows "comment_refs_ok s'"
proof (rule comment_refs_ok_mono [OF assms(1)])
  from assms(2) have s': "s' = s\<lparr>users := users s @ [u]\<rparr>"
    by (auto simp add: db_add_user_def Let_def split: if_splits)
  show "comments s' = comments s" "set (users s) \<subseteq> set (users s')"
    "set (blog_posts s) \<subseteq> set (blog_posts s')"
    unfolding s' by auto
qed

lemma update_keeps_keys:
  "p_id ` set (map (\<lambda>q. if p_id q = i
      then q\<lparr>title := t, subtitle := st, img_url := img, body := b\<rparr> else q) ps) = p_id ` set ps"
  by (induction ps) auto

lemma comment_refs_ok_update_post:
  assumes "comment_refs_ok s" and "db_update_post i t st img b s = Inr s'"
  shows "comment_refs_ok s'"
proof -
  from assms(2) have s': "s' = s\<lparr>blog_posts :=
          map (\<lambda>q. if p_id q = i
                   then q\<lparr>title := t, subtitle := st, img_url := img, body := b\<rparr>
                   else q) (blog_posts s)\<rparr>"
    by (auto simp add: db_update_post_def split: if_splits)
  have keys: "p_id ` set (blog_posts s') = p_id ` set (blog_posts s)"
    unfolding s' using update_keeps_keys [where ps = "blog_posts s" and i = i and t = t
        and st = st and img = img and b = b] by simp
  have rest: "users s' = users s" "comments s' = comments s"
    unfolding s' by simp_all
  have iff: "(\<exists>p \<in> set (blog_posts s'). x = Some (p_id p)) \<longleftrightarrow>
             (\<exists>p \<in> set (blog_posts s). x = Some (p_id p))" for x
  proof -
    have a: "(\<exists>p \<in> set ps. x = Some (p_id p)) \<longleftrightarrow> x \<in> Some ` p_id ` set ps" for ps
      by auto
    show ?thesis unfolding a keys ..
  qed
  show ?thesis
    using assms(1) unfolding comment_refs_ok_def rest iff .
qed

lemma comment_refs_ok_delete_post:
  assumes "comment_refs_ok s" and "db_delete_post po s = Inr s'"
  shows "comment_refs_ok s'"
proof (cases po)
  case None
  with assms(2) show ?thesis by (simp add: db_delete_post_def)
next
  case (Some p)
  with assms(2) have s': "s' = s\<lparr>blog_posts := filter (\<lambda>q. p_id q \<noteq> p_id p) (blog_posts s),
                 comments := map (\<lambda>c. if c_post_id c = Some (p_id p)
                                       then c\<lparr>c_post_id := None\<rparr> else c) (comments s)\<rparr>"
    by (simp add: db_delete_post_def)
  show ?thesis
    unfolding comment_refs_ok_def
  proof
    fix c' assume "c' \<in> set (comments s')"
    then obtain c where c: "c \<in> set (comments s)"
      and c': "c' = (if c_post_id c = Some (p_id p) then c\<lparr>c_post_id := None\<rparr> else c)"
      unfolding s' by auto
    from assms(1) c have au: "\<exists>u \<in> set (users s). c_author_id c = Some (u_id u)"
      and pa: "c_post_id c = None \<or> (\<exists>q \<in> set (blog_posts s). c_post_id c = Some (p_id q))"
      unfolding comment_refs_ok_def by blast+
    have u: "\<exists>u \<in> set (users s'). c_author_id c' = Some (u_id u)"
      using au unfolding s' c' by auto
    have q: "c_post_id c' = None \<or> (\<exists>q \<in> set (blog_posts s'). c_post_id c' = Some (p_id q))"
    proof (cases "c_post_id c = Some (p_id p)")
      case True
      then show ?thesis unfolding c' by simp
    next
      case False
      with pa show ?thesis unfolding s' c' by auto
    qed
    from u q show "(\<exists>u \<in> set (users s'). c_author_id c' = Some (u_id u)) \<and>
        (c_post_id c' = None \<or> (\<exists>q \<in> set (blog_posts s'). c_post_id c' = Some (p_id q)))"
      by simp
  qed
qed

lemma comment_refs_ok_admin_only:
  assumes "comment_refs_ok s" and "\<And>s. comment_refs_ok s \<Longrightarrow> comment_refs_ok (snd (f s))"
  shows "comment_refs_ok (snd (admin_only f s))"
  using assms by (auto simp add: admin_only_def split: sum.splits)

lemma comment_refs_ok_show_post:
  assumes "comment_refs_ok s"
  shows "comment_refs_ok (snd (show_post index form s))"
proof (cases "query_get_post index s")
  case (Inl e)
  with assms show ?thesis by (simp add: show_post_def)
next
  case (Inr requested_post)
  show ?thesis
  proof (cases form)
    case None
    with assms Inr show ?thesis by (simp add: show_post_def)
  next
    case (Some data)
    show ?thesis
    proof (cases "current_user s")
      case AnonymousUser
      with assms Some Inr show ?thesis by (simp add: show_post_def)
    next
      case (LoggedIn u)
      then have u: "u \<in> set (users s)" by (simp add: current_user_LoggedIn)
      have p: "map_option p_id requested_post = None \<or>
          (\<exists>p \<in> set (blog_posts s). map_option p_id requested_post = Some (p_id p))"
        using Inr by (cases requested_post) (auto dest: query_get_post_Some)
      from comment_refs_ok_add_comment [OF assms u p]
      show ?thesis using Some LoggedIn Inr by (simp add: show_post_def)
    qed
  qed
qed

lemma comment_refs_ok_new_post_fn:
  assumes "comment_refs_ok s"
  shows "comment_refs_ok (snd (new_post_fn form today s))"
  using assms
  by (auto simp add: new_post_fn_def split: option.splits sum.splits
      dest: comment_refs_ok_add_post)

lemma comment_refs_ok_edit_post_fn:
  assumes "comment_refs_ok s"
  shows "comment_refs_ok (snd (edit_post_fn post_id form s))"
  using assms
  by (auto simp add: edit_post_fn_def split: option.splits sum.splits
      dest: comment_refs_ok_update_post)

lemma comment_refs_ok_delete_post_fn:
  assumes "comment_refs_ok s"
  shows "comment_refs_ok (snd (delete_post_fn post_id s))"
  using assms
  by (auto simp add: delete_post_fn_def Let_def split: sum.splits
      dest: comment_refs_ok_delete_post)

lemma comment_refs_ok_register:
  assumes "comment_refs_ok s"
  shows "comment_refs_ok (snd (register H form salt s))"
  using assms
  by (auto simp add: register_def Let_def login_user_def split: option.splits sum.splits
      dest: comment_refs_ok_add_user)

lemma comment_refs_ok_login:
  assumes "comment_refs_ok s"
  shows "comment_refs_ok (snd (login H form s))"
  using assms
  by (auto simp add: login_def login_user_def split: option.splits)

lemma comment_refs_ok_route:
  assumes "comment_refs_ok s"
  shows "comment_refs_ok (snd (route H req s))"
proof (cases req)
  case (ShowPost index form)
  with assms show ?thesis by (simp add: comment_refs_ok_show_post)
next
  case (NewPost form today)
  with assms show ?thesis
    by (simp add: new_post_def comment_refs_ok_admin_only comment_refs_ok_new_post_fn)
next
  case (EditPost post_id form)
  with assms show ?thesis
    by (simp add: edit_post_def comment_refs_ok_admin_only comment_refs_ok_edit_post_fn)
next
  case (DeletePost post_id)
  with assms show ?thesis
    by (simp add: delete_post_def comment_refs_ok_admin_only comment_refs_ok_delete_post_fn)
next
  case (Register form salt)
  with assms show ?thesis by (simp add: comment_refs_ok_register)
next
  case (Login form)
  with assms show ?thesis by (simp add: comment_refs_ok_login)
qed (use assms in \<open>simp_all add: get_all_posts_def about_def contact_def logout_def logout_user_def\<close>)

text \<open>
  Claim C5, amended. In every reachable state every stored comment references an existing
  user as its author, and its \<^verbatim>\<open>post_id\<close> is either NULL or the identifier of an existing
  post. A comment submitted in such a state by a logged-in user for an identifier that no
  post has is stored with \<^verbatim>\<open>post_id\<close> NULL when the identifier is within the store's 64-bit
  range; outside that range the lookup raises \<^verbatim>\<open>OverflowError\<close> and nothing is stored.
\<close>

theorem reachable_comment_refs:
  "reachable H s \<Longrightarrow>
     (\<forall>c \<in> set (comments s).
        (\<exists>u \<in> set (users s). c_author_id c = Some (u_id u)) \<and>
        (c_post_id c = None \<or> (\<exists>p \<in> set (blog_posts s). c_post_id c = Some (p_id p))))
     \<and> (current_user (s\<lparr>session_user := c\<rparr>) = LoggedIn u \<longrightarrow>
          index \<notin> p_id ` set (blog_posts s) \<longrightarrow>
          show_post index (Some data) (s\<lparr>session_user := c\<rparr>) =
            (if sqlite_int index
             then (Render ''post.html'' [],
                   s\<lparr>session_user := c,
                     comments := comments s @
                       [\<lparr>c_id = fresh_id (map c_id (comments s)), c_author_id = Some (u_id u),
                         c_post_id = None, c_text = data\<rparr>]\<rparr>)
             else (Unhandled OverflowError, s\<lparr>session_user := c\<rparr>)))"
proof -
  assume "reachable H s"
  then have "comment_refs_ok s"
  proof (induction rule: reachable.induct)
    case start
    show ?case by (rule comment_refs_ok_empty)
  next
    case (request s req c)
    then have "comment_refs_ok (s\<lparr>session_user := c\<rparr>)" by simp
    then show ?case by (rule comment_refs_ok_route)
  qed
  then have inv: "\<forall>c \<in> set (comments s).
        (\<exists>u \<in> set (users s). c_author_id c = Some (u_id u)) \<and>
        (c_post_id c = None \<or> (\<exists>p \<in> set (blog_posts s). c_post_id c = Some (p_id p)))"
    by (simp add: comment_refs_ok_def)
  let ?s = "s\<lparr>session_user := c\<rparr>"
  have orphan: "show_post index (Some data) ?s =
            (if sqlite_int index
             then (Render ''post.html'' [],
                   s\<lparr>session_user := c,
                     comments := comments s @
                       [\<lparr>c_id = fresh_id (map c_id (comments s)), c_author_id = Some (u_id u),
                         c_post_id = None, c_text = data\<rparr>]\<rparr>)
             else (Unhandled OverflowError, ?s))"
    if cu: "current_user ?s = LoggedIn u" and missing: "index \<notin> p_id ` set (blog_posts s)"
  proof (cases "sqlite_int index")
    case True
    with missing have q: "query_get_post index ?s = Inr None"
      by (simp add: query_get_post_None)
    from True show ?thesis
      unfolding show_post_logged_in [OF cu q] by simp
  next
    case False
    then show ?thesis by (simp add: show_post_overflow)
  qed
  from inv orphan show ?thesis by blast
qed

lemma seven_missing_alice: "7 \<notin> p_id ` set (blog_posts alice_state)"
  by (simp add: alice_state_def)

lemma current_user_alice_session:
  "current_user (alice_state\<lparr>session_user := Some 1\<rparr>) = LoggedIn alice_row"
  by (simp add: current_user_def load_user_def alice_state_def alice_row_def)

theorem reachable_comment_refs_witness:
  "reachable sample_digest orphan_state \<and>
   (\<exists>u \<in> set (users orphan_state). c_author_id (hd (comments orphan_state)) = Some (u_id u)) \<and>
   (c_post_id (hd (comments orphan_state)) = None \<or>
    (\<exists>p \<in> set (blog_posts orphan_state). c_post_id (hd (comments orphan_state)) = Some (p_id p))) \<and>
   reachable sample_digest alice_state \<and>
   show_post 7 (Some ''nice post'') (alice_state\<lparr>session_user := Some 1\<rparr>) =
     (Render ''post.html'' [],
      alice_state\<lparr>session_user := Some 1,
        comments := comments alice_state @
          [\<lparr>c_id = fresh_id (map c_id (comments alice_state)), c_author_id = Some (u_id alice_row),
            c_post_id = None, c_text = ''nice post''\<rparr>]\<rparr>)"
proof -
  have m: "hd (comments orphan_state) \<in> set (comments orphan_state)"
    by (simp add: orphan_state_def)
  from reachable_comment_refs [OF reachable_orphan_state] m
  have a: "(\<exists>u \<in> set (users orphan_state). c_author_id (hd (comments orphan_state)) = Some (u_id u)) \<and>
   (c_post_id (hd (comments orphan_state)) = None \<or>
    (\<exists>p \<in> set (blog_posts orphan_state). c_post_id (hd (comments orphan_state)) = Some (p_id p)))"
    by blast
  from reachable_comment_refs [OF reachable_alice_state, of "Some 1" alice_row 7 "''nice post''"]
    current_user_alice_session seven_missing_alice sqlite_int_small
  have b: "show_post 7 (Some ''nice post'') (alice_state\<lparr>session_user := Some 1\<rparr>) =
     (Render ''post.html'' [],
      alice_state\<lparr>session_user := Some 1,
        comments := comments alice_state @
          [\<lparr>c_id = fresh_id (map c_id (comments alice_state)), c_author_id = Some (u_id alice_row),
            c_post_id = None, c_text = ''nice post''\<rparr>]\<rparr>)"
    by simp
  from a b reachable_orphan_state reachable_alice_state show ?thesis by simp
qed

section \<open>Registration and login\<close>

lemma one_row_per_email:
  "distinct (map email us) \<Longrightarrow> e \<in> set (map email us) \<Longrightarrow>
     length (filter (\<lambda>u. email u = e) us) = 1"
proof (induction us)
  case Nil
  then show ?case by simp
next
  case (Cons a us)
  show ?case
  proof (cases "email a = e")
    case True
    with Cons.prems(1) have "e \<notin> set (map email us)" by auto
    then have "filter (\<lambda>u. email u = e) us = []"
      by (force simp add: filter_empty_conv)
    with True show ?thesis by simp
  next
    case False
    with Cons show ?thesis by simp
  qed
qed

lemma no_row_for_email:
  "e \<notin> set (map email us) \<Longrightarrow> filter (\<lambda>u. email u = e) us = []"
  by (force simp add: filter_empty_conv)

text \<open>
  Claim C6. Registering twice with the same email: the second call flashes that the email
  exists and redirects to the login page (the duplicate-email outcome) without touching the
  state, so no record is created by it, and exactly one user row carries that email.
\<close>

theorem register_twice_same_email:
  assumes "distinct (map email (users s))" and "r_email g = r_email f"
  shows "register H (Some g) salt2 (snd (register H (Some f) salt1 s)) =
           (Redirect ''login'' [''This email already exists, login instead!!!.''],
            snd (register H (Some f) salt1 s))
       \<and> length (filter (\<lambda>u. email u = r_email f) (users (snd (register H (Some f) salt1 s)))) = 1"
proof (cases "r_email f \<in> set (map email (users s))")
  case True
  note first = register_taken_email [OF True, of H salt1]
  from True assms(2) have "r_email g \<in> set (map email (users s))" by simp
  note second = register_taken_email [OF this, of H salt2]
  show ?thesis
    unfolding first using second one_row_per_email [OF assms(1) True] by simp
next
  case False
  note first = register_fresh_email [OF False, of H salt1]
  have "r_email g \<in> set (map email (users (snd (register H (Some f) salt1 s))))"
    unfolding first using assms(2) by simp
  note second = register_taken_email [OF this, of H salt2]
  have "length (filter (\<lambda>u. email u = r_email f) (users (snd (register H (Some f) salt1 s)))) = 1"
    unfolding first using no_row_for_email [OF False] by simp
  with second show ?thesis by simp
qed

lemma distinct_emails_empty: "distinct (map email (users empty_state))"
  by (simp add: empty_state_def)

theorem register_twice_same_email_witness:
  "register sample_digest (Some alice_form) ''pepper''
      (snd (register sample_digest (Some alice_form) ''salt'' empty_state)) =
     (Redirect ''login'' [''This email already exists, login instead!!!.''],
      snd (register sample_digest (Some alice_form) ''salt'' empty_state))
   \<and> length (filter (\<lambda>u. email u = r_email alice_form)
        (users (snd (register sample_digest (Some alice_form) ''salt'' empty_state)))) = 1"
  using register_twice_same_email [OF distinct_emails_empty refl, of sample_digest alice_form "''pepper''" "''salt''"]
  by simp


section \<open>Commenting\<close>





section \<open>Login\<close>

lemma find_email: "find (\<lambda>u. email u = e) us = Some u \<Longrightarrow> email u = e \<and> u \<in> set us"
  by (induction us) (auto split: if_splits)

lemma find_email_None: "find (\<lambda>u. email u = e) us = None \<longleftrightarrow> e \<notin> set (map email us)"
  unfolding find_None_iff by auto

lemma login_unknown_email:
  assumes "l_email f \<notin> set (map email (users s))"
  shows "login H (Some f) s =
           (Render ''login.html'' [''Email does not exist, please try again.''], s)"
proof -
  from assms have "find (\<lambda>u. email u = l_email f) (users s) = None"
    using find_email_None [of "l_email f" "users s"] by blast
  then show ?thesis by (simp add: login_def)
qed

lemma login_wrong_password:
  assumes "find (\<lambda>u. email u = l_email f) (users s) = Some u"
    and "\<not> check_password_hash H (password u) (l_password f)"
  shows "login H (Some f) s = (Render ''login.html'' [''Password is incorrect''], s)"
  using assms by (simp add: login_def)

lemma login_verified:
  assumes "find (\<lambda>u. email u = l_email f) (users s) = Some u"
    and "check_password_hash H (password u) (l_password f)"
  shows "login H (Some f) s =
           (Redirect ''get_all_posts'' [], s\<lparr>session_user := Some (u_id u)\<rparr>)"
  using assms by (simp add: login_def login_user_def)

text \<open>
  Claim C8. \<^verbatim>\<open>login\<close> with a submitted form: when no stored user has the email it flashes
  that the email does not exist and renders the login page again (not found); when the
  first stored user with that email has a hash the password does not verify against, it
  flashes that the password is incorrect, renders the login page and leaves the session as
  it was (bad credential); when the password verifies it puts that user into the session
  and redirects to the index. The redirect to the index is returned exactly when a user
  with the email exists and the password verifies.
\<close>

theorem login_outcomes:
  "(l_email f \<notin> set (map email (users s)) \<longrightarrow>
      login H (Some f) s =
        (Render ''login.html'' [''Email does not exist, please try again.''], s))
   \<and> (find (\<lambda>u. email u = l_email f) (users s) = Some u \<longrightarrow>
        \<not> check_password_hash H (password u) (l_password f) \<longrightarrow>
      login H (Some f) s = (Render ''login.html'' [''Password is incorrect''], s))
   \<and> (find (\<lambda>u. email u = l_email f) (users s) = Some u \<longrightarrow>
        check_password_hash H (password u) (l_password f) \<longrightarrow>
      login H (Some f) s =
        (Redirect ''get_all_posts'' [], s\<lparr>session_user := Some (u_id u)\<rparr>))
   \<and> (fst (login H (Some f) s) = Redirect ''get_all_posts'' [] \<longleftrightarrow>
        (\<exists>v. find (\<lambda>u. email u = l_email f) (users s) = Some v \<and>
             check_password_hash H (password v) (l_password f)))"
proof -
  have iff: "fst (login H (Some f) s) = Redirect ''get_all_posts'' [] \<longleftrightarrow>
        (\<exists>v. find (\<lambda>u. email u = l_email f) (users s) = Some v \<and>
             check_password_hash H (password v) (l_password f))"
    by (simp add: login_def split: option.splits)
  show ?thesis
    using login_unknown_email [of f s H] login_wrong_password [of f s u H]
      login_verified [of f s u H] iff
    by blast
qed

lemma find_alice: "find (\<lambda>u. email u = ''alice@example.com'') (users alice_state) = Some alice_row"
  by (simp add: alice_state_def alice_row_def)

lemma check_alice: "check_password_hash sample_digest (password alice_row) ''pw123''"
  by (simp add: check_password_hash_def sample_digest_def alice_row_def)

lemma check_alice_wrong: "\<not> check_password_hash sample_digest (password alice_row) ''pw124''"
  by (simp add: check_password_hash_def sample_digest_def alice_row_def)

lemma no_bob: "''bob@example.com'' \<notin> set (map email (users alice_state))"
  by (simp add: alice_state_def alice_row_def)

theorem login_outcomes_witness:
  "login sample_digest (Some \<lparr>l_email = ''bob@example.com'', l_password = ''pw123''\<rparr>) alice_state =
     (Render ''login.html'' [''Email does not exist, please try again.''], alice_state)
   \<and> login sample_digest (Some \<lparr>l_email = ''alice@example.com'', l_password = ''pw124''\<rparr>) alice_state =
     (Render ''login.html'' [''Password is incorrect''], alice_state)
   \<and> login sample_digest (Some \<lparr>l_email = ''alice@example.com'', l_password = ''pw123''\<rparr>) alice_state =
     (Redirect ''get_all_posts'' [], alice_state\<lparr>session_user := Some (u_id alice_row)\<rparr>)"
proof -
  have a: "login sample_digest (Some \<lparr>l_email = ''bob@example.com'', l_password = ''pw123''\<rparr>) alice_state =
     (Render ''login.html'' [''Email does not exist, please try again.''], alice_state)"
    using login_outcomes [of "\<lparr>l_email = ''bob@example.com'', l_password = ''pw123''\<rparr>"
        alice_state sample_digest alice_row] no_bob
    by simp
  have b: "login sample_digest (Some \<lparr>l_email = ''alice@example.com'', l_password = ''pw124''\<rparr>) alice_state =
     (Render ''login.html'' [''Password is incorrect''], alice_state)"
    using login_outcomes [of "\<lparr>l_email = ''alice@example.com'', l_password = ''pw124''\<rparr>"
        alice_state sample_digest alice_row] find_alice check_alice_wrong
    by simp
  have c: "login sample_digest (Some \<lparr>l_email = ''alice@example.com'', l_password = ''pw123''\<rparr>) alice_state =
     (Redirect ''get_all_posts'' [], alice_state\<lparr>session_user := Some (u_id alice_row)\<rparr>)"
    using login_outcomes [of "\<lparr>l_email = ''alice@example.com'', l_password = ''pw123''\<rparr>"
        alice_state sample_digest alice_row] find_alice check_alice
    by simp
  from a b c show ?thesis by simp
qed


section \<open>Registrations followed by login\<close>

text \<open>A generated hash verifies the password it was generated from, whatever the digest.\<close>

lemma check_generated:
  "check_password_hash H (generate_password_hash H salt pw) pw"
  by (simp add: check_password_hash_def generate_password_hash_def)

lemma register_all_rows:
  assumes "distinct (map (\<lambda>r. r_email (fst r)) regs)"
    and "set (map (\<lambda>r. r_email (fst r)) regs) \<inter> set (map email (users s)) = {}"
  shows "fst (register_all H regs s) = replicate (length regs) (Redirect ''get_all_posts'' [])
       \<and> map (\<lambda>u. (email u, password u, name u)) (users (snd (register_all H regs s))) =
           map (\<lambda>u. (email u, password u, name u)) (users s) @
           map (\<lambda>(f, salt). (r_email f, generate_password_hash H salt (r_password f), r_name f)) regs"
  using assms
proof (induction regs arbitrary: s)
  case Nil
  show ?case by simp
next
  case (Cons a regs)
  obtain f salt where a: "a = (f, salt)" by (cases a)
  let ?s1 = "snd (register H (Some f) salt s)"
  from Cons.prems(2) a have fresh: "r_email f \<notin> set (map email (users s))" by auto
  note first = register_fresh_email [OF fresh, of H salt]
  have emails1: "set (map email (users ?s1)) = insert (r_email f) (set (map email (users s)))"
    unfolding first by simp
  from Cons.prems(1) have d: "distinct (map (\<lambda>r. r_email (fst r)) regs)" by simp
  from Cons.prems(1) a have "r_email f \<notin> set (map (\<lambda>r. r_email (fst r)) regs)" by simp
  with Cons.prems(2) have disj: "set (map (\<lambda>r. r_email (fst r)) regs) \<inter> set (map email (users ?s1)) = {}"
    unfolding emails1 by auto
  note ih = Cons.IH [OF d disj]
  have unfold: "register_all H (a # regs) s =
      (fst (register H (Some f) salt s) # fst (register_all H regs ?s1),
       snd (register_all H regs ?s1))"
    unfolding a by (simp add: split_beta Let_def)
  have r: "fst (register H (Some f) salt s) = Redirect ''get_all_posts'' []"
    unfolding first by simp
  have rows1: "map (\<lambda>u. (email u, password u, name u)) (users ?s1) =
      map (\<lambda>u. (email u, password u, name u)) (users s) @
      [(r_email f, generate_password_hash H salt (r_password f), r_name f)]"
    unfolding first by simp
  show ?case
    unfolding unfold using ih r rows1 a by simp
qed

lemma registered_row_found:
  assumes "distinct (map (\<lambda>r. r_email (fst r)) regs)"
    and "set (map (\<lambda>r. r_email (fst r)) regs) \<inter> set (map email (users s)) = {}"
    and "(f, salt) \<in> set regs"
  shows "\<exists>u. find (\<lambda>u. email u = r_email f) (users (snd (register_all H regs s))) = Some u
           \<and> u \<in> set (users (snd (register_all H regs s)))
           \<and> email u = r_email f
           \<and> password u = generate_password_hash H salt (r_password f)
           \<and> name u = r_name f"
proof -
  let ?us = "users (snd (register_all H regs s))"
  let ?row = "\<lambda>u. (email u, password u, name u)"
  let ?new = "\<lambda>(f, salt). (r_email f, generate_password_hash H salt (r_password f), r_name f)"
  from register_all_rows [OF assms(1,2), of H]
  have rows: "map ?row ?us = map ?row (users s) @ map ?new regs" by simp
  have "map email ?us = map fst (map ?row ?us)" by (simp add: comp_def)
  also have "\<dots> = map email (users s) @ map (\<lambda>r. r_email (fst r)) regs"
    unfolding rows by (simp add: comp_def split_beta)
  finally have emails: "map email ?us = map email (users s) @ map (\<lambda>r. r_email (fst r)) regs" .
  from assms(3) have reg: "r_email f \<in> set (map (\<lambda>r. r_email (fst r)) regs)"
    by (simp add: image_iff) (rule bexI [of _ "(f, salt)"], simp_all)
  then have "r_email f \<in> set (map email ?us)"
    unfolding emails by simp
  then have "find (\<lambda>u. email u = r_email f) ?us \<noteq> None"
    unfolding find_email_None by simp
  then obtain u where found: "find (\<lambda>u. email u = r_email f) ?us = Some u"
    by blast
  from find_email [OF found] have e: "email u = r_email f" and mem: "u \<in> set ?us"
    by simp_all
  from mem have "?row u \<in> ?row ` set ?us" by (rule imageI)
  then have "?row u \<in> set (map ?row ?us)" by simp
  then have "?row u \<in> set (map ?row (users s)) \<or> ?row u \<in> set (map ?new regs)"
    unfolding rows by simp
  moreover have "?row u \<notin> set (map ?row (users s))"
  proof
    assume "?row u \<in> set (map ?row (users s))"
    then obtain v where "v \<in> set (users s)" and "?row v = ?row u" by auto
    then have "email u \<in> set (map email (users s))" by (simp add: image_iff) metis
    with e have "r_email f \<in> set (map email (users s))" by simp
    with reg assms(2) show False by blast
  qed
  ultimately have "?row u \<in> set (map ?new regs)" by blast
  then obtain r where r: "r \<in> set regs" and rr: "?row u = ?new r" by auto
  obtain f' salt' where r': "r = (f', salt')" by (cases r)
  from r r' have in': "(f', salt') \<in> set regs" by simp
  from rr r' have row:
    "?row u = (r_email f', generate_password_hash H salt' (r_password f'), r_name f')"
    by simp
  from assms(1) have "inj_on (\<lambda>r. r_email (fst r)) (set regs)" by (simp add: distinct_map)
  moreover from row e have "(\<lambda>r. r_email (fst r)) (f', salt') = (\<lambda>r. r_email (fst r)) (f, salt)" by simp
  ultimately have "(f', salt') = (f, salt)"
    using in' assms(3) by (rule inj_onD)
  with row have "password u = generate_password_hash H salt (r_password f)" "name u = r_name f"
    by simp_all
  with found e mem show ?thesis by blast
qed

text \<open>
  Claim C9. Registrations with pairwise distinct emails, none of them stored before, all
  succeed (each answers with the redirect to the index). Afterwards \<^verbatim>\<open>login\<close> with the
  email and password of any of them succeeds: it finds the user row created for that
  registration, puts its identifier into the session and redirects to the index.
\<close>

theorem distinct_registrations_then_login:
  assumes "distinct (map (\<lambda>r. r_email (fst r)) regs)"
    and "set (map (\<lambda>r. r_email (fst r)) regs) \<inter> set (map email (users s)) = {}"
    and "(f, salt) \<in> set regs"
  shows "fst (register_all H regs s) = replicate (length regs) (Redirect ''get_all_posts'' [])
       \<and> (\<exists>u \<in> set (users (snd (register_all H regs s))).
             email u = r_email f \<and> name u = r_name f \<and>
             login H (Some \<lparr>l_email = r_email f, l_password = r_password f\<rparr>)
                 (snd (register_all H regs s)) =
               (Redirect ''get_all_posts'' [],
                (snd (register_all H regs s))\<lparr>session_user := Some (u_id u)\<rparr>))"
proof -
  let ?s' = "snd (register_all H regs s)"
  let ?form = "\<lparr>l_email = r_email f, l_password = r_password f\<rparr>"
  from registered_row_found [OF assms, of H]
  obtain u where found: "find (\<lambda>u. email u = r_email f) (users ?s') = Some u"
    and mem: "u \<in> set (users ?s')" and e: "email u = r_email f"
    and pw: "password u = generate_password_hash H salt (r_password f)"
    and n: "name u = r_name f"
    by blast
  from found have found': "find (\<lambda>u. email u = l_email ?form) (users ?s') = Some u" by simp
  have ok: "check_password_hash H (password u) (l_password ?form)"
    unfolding pw by (simp add: check_generated)
  note login_verified [OF found' ok]
  with mem e n register_all_rows [OF assms(1,2), of H] show ?thesis by blast
qed


theorem distinct_registrations_then_login_witness:
  "fst (register_all sample_digest [(alice_form, ''salt''), (bob_form, ''pepper'')] empty_state) =
     [Redirect ''get_all_posts'' [], Redirect ''get_all_posts'' []]
   \<and> (\<exists>u \<in> set (users (snd (register_all sample_digest
             [(alice_form, ''salt''), (bob_form, ''pepper'')] empty_state))).
         email u = r_email bob_form \<and> name u = r_name bob_form \<and>
         login sample_digest (Some \<lparr>l_email = r_email bob_form, l_password = r_password bob_form\<rparr>)
             (snd (register_all sample_digest
               [(alice_form, ''salt''), (bob_form, ''pepper'')] empty_state)) =
           (Redirect ''get_all_posts'' [],
            (snd (register_all sample_digest
               [(alice_form, ''salt''), (bob_form, ''pepper'')] empty_state))
              \<lparr>session_user := Some (u_id u)\<rparr>))"
proof -
  have d: "distinct (map (\<lambda>r. r_email (fst r)) [(alice_form, ''salt''), (bob_form, ''pepper'')])"
    by (simp add: alice_form_def bob_form_def)
  have e: "set (map (\<lambda>r. r_email (fst r)) [(alice_form, ''salt''), (bob_form, ''pepper'')])
             \<inter> set (map email (users empty_state)) = {}"
    by (simp add: empty_state_def)
  have m: "(bob_form, ''pepper'') \<in> set [(alice_form, ''salt''), (bob_form, ''pepper'')]"
    by simp
  from distinct_registrations_then_login [OF d e m, of sample_digest]
  show ?thesis by (simp add: numeral_2_eq_2)
qed

section \<open>Editing a post\<close>

lemma find_map_keeps_key:
  assumes "\<And>q. p_id (g q) = p_id q"
  shows "find (\<lambda>q. p_id q = i) (map g ps) = map_option g (find (\<lambda>q. p_id q = i) ps)"
  using assms by (induction ps) simp_all

lemma edit_post_admin:
  assumes "current_user s = LoggedIn u" and "u_id u = 1" and "query_get_post post_id s = Inr (Some p)"
  shows "edit_post post_id (Some f) s =
           (case db_update_post post_id (f_title f) (f_subtitle f) (f_img_url f) (f_body f) s of
              Inl e \<Rightarrow> (Unhandled e, s)
            | Inr s' \<Rightarrow> (Redirect ''show_post'' [], s'))"
proof -
  from assms(3) have "p_id p = post_id" by (simp add: query_get_post_Some)
  with assms show ?thesis
    by (simp add: edit_post_def admin_only_admin edit_post_fn_def)
qed

text \<open>
  Claim C10. When \<^verbatim>\<open>edit_post\<close> called by the administrator on an existing post succeeds
  (it redirects to the post), the state differs from the one before only in the row of that
  post, and there only in title, subtitle, image URL and body, which hold the submitted
  values: identifier, author and date of the post are as before, every other post is
  unchanged, and so are the users, the comments and the session.
\<close>

theorem edit_post_overwrites_four_fields:
  assumes "current_user s = LoggedIn u" and "u_id u = 1" and "query_get_post post_id s = Inr (Some p)"
    and "fst (edit_post post_id (Some f) s) = Redirect ''show_post'' []"
  shows "snd (edit_post post_id (Some f) s) =
           s\<lparr>blog_posts :=
             map (\<lambda>q. if p_id q = post_id
                      then q\<lparr>title := f_title f, subtitle := f_subtitle f,
                             img_url := f_img_url f, body := f_body f\<rparr>
                      else q) (blog_posts s)\<rparr>
       \<and> query_get_post post_id (snd (edit_post post_id (Some f) s)) =
           Inr (Some \<lparr>p_id = p_id p, p_author_id = p_author_id p, title = f_title f,
                  subtitle = f_subtitle f, date = date p, body = f_body f,
                  img_url = f_img_url f\<rparr>)
       \<and> filter (\<lambda>q. p_id q \<noteq> post_id) (blog_posts (snd (edit_post post_id (Some f) s))) =
           filter (\<lambda>q. p_id q \<noteq> post_id) (blog_posts s)
       \<and> users (snd (edit_post post_id (Some f) s)) = users s
       \<and> comments (snd (edit_post post_id (Some f) s)) = comments s
       \<and> session_user (snd (edit_post post_id (Some f) s)) = session_user s"
proof -
  let ?g = "\<lambda>q. if p_id q = post_id
                      then q\<lparr>title := f_title f, subtitle := f_subtitle f,
                             img_url := f_img_url f, body := f_body f\<rparr>
                      else q"
  note step = edit_post_admin [OF assms(1,2,3), of f]
  from assms(4) have free:
    "f_title f \<notin> set (map title (filter (\<lambda>q. p_id q \<noteq> post_id) (blog_posts s)))"
    unfolding step by (auto simp add: db_update_post_def split: if_splits)
  then have eq: "edit_post post_id (Some f) s =
      (Redirect ''show_post'' [], s\<lparr>blog_posts := map ?g (blog_posts s)\<rparr>)"
    unfolding step by (simp add: db_update_post_def)
  have key: "p_id (?g q) = p_id q" for q by simp
  from assms(3) have pid: "p_id p = post_id" by (simp add: query_get_post_Some)
  from assms(3) have range: "sqlite_int post_id"
    and found: "find (\<lambda>q. p_id q = post_id) (blog_posts s) = Some p"
    by (auto simp add: query_get_post_def split: if_splits)
  have "query_get_post post_id (s\<lparr>blog_posts := map ?g (blog_posts s)\<rparr>) =
      Inr (map_option ?g (find (\<lambda>q. p_id q = post_id) (blog_posts s)))"
    unfolding query_get_post_def
    using range find_map_keeps_key [of ?g post_id "blog_posts s", OF key]
    by simp
  also have "\<dots> = Inr (Some (?g p))" unfolding found by simp
  also have "?g p = \<lparr>p_id = p_id p, p_author_id = p_author_id p, title = f_title f,
                  subtitle = f_subtitle f, date = date p, body = f_body f,
                  img_url = f_img_url f\<rparr>"
    using pid by (cases p) simp
  finally have a: "query_get_post post_id (s\<lparr>blog_posts := map ?g (blog_posts s)\<rparr>) =
      Inr (Some \<lparr>p_id = p_id p, p_author_id = p_author_id p, title = f_title f,
                  subtitle = f_subtitle f, date = date p, body = f_body f,
                  img_url = f_img_url f\<rparr>)" .
  have b: "filter (\<lambda>q. p_id q \<noteq> post_id) (map ?g ps) = filter (\<lambda>q. p_id q \<noteq> post_id) ps" for ps
    by (induction ps) simp_all
  show ?thesis
    unfolding eq using a b [of "blog_posts s"] by simp
qed


lemma edit_admin_state_succeeds:
  "fst (edit_post 1 (Some sample_form) admin_state) = Redirect ''show_post'' []"
  unfolding edit_post_admin [OF current_user_admin_state u_id_admin_row query_admin_state]
  by (simp add: db_update_post_def admin_state_def sample_post_def)

theorem edit_post_overwrites_four_fields_witness:
  "query_get_post 1 (snd (edit_post 1 (Some sample_form) admin_state)) =
     Inr (Some \<lparr>p_id = 1, p_author_id = Some 1, title = ''Hello'', subtitle = ''again'',
            date = ''March 05,2024'', body = ''more'', img_url = ''http://img2''\<rparr>)
   \<and> users (snd (edit_post 1 (Some sample_form) admin_state)) = [admin_row]
   \<and> comments (snd (edit_post 1 (Some sample_form) admin_state)) = [sample_comment]
   \<and> session_user (snd (edit_post 1 (Some sample_form) admin_state)) = Some 1"
proof -
  note t = edit_post_overwrites_four_fields
    [OF current_user_admin_state u_id_admin_row query_admin_state edit_admin_state_succeeds]
  from t have a: "query_get_post 1 (snd (edit_post 1 (Some sample_form) admin_state)) =
           Inr (Some \<lparr>p_id = p_id sample_post, p_author_id = p_author_id sample_post,
                  title = f_title sample_form, subtitle = f_subtitle sample_form,
                  date = date sample_post, body = f_body sample_form,
                  img_url = f_img_url sample_form\<rparr>)"
    by (rule conjunct1 [OF conjunct2])
  from t have b: "users (snd (edit_post 1 (Some sample_form) admin_state)) = users admin_state"
    by (rule conjunct1 [OF conjunct2 [OF conjunct2 [OF conjunct2]]])
  from t have c: "comments (snd (edit_post 1 (Some sample_form) admin_state)) = comments admin_state"
    by (rule conjunct1 [OF conjunct2 [OF conjunct2 [OF conjunct2 [OF conjunct2]]]])
  from t have d: "session_user (snd (edit_post 1 (Some sample_form) admin_state)) =
      session_user admin_state"
    by (rule conjunct2 [OF conjunct2 [OF conjunct2 [OF conjunct2 [OF conjunct2]]]])
  show ?thesis
    unfolding a b c d by (simp add: sample_post_def sample_form_def admin_state_def)
qed

end
